theory Spec2Isabelle
  imports Main "HOL-Library.AList" "HOL-Library.Char_ord" "HOL-Library.List_Lexorder"
    "HOL-Library.Multiset"
begin

section \<open>Results of fallible code\<close>

text \<open>
  The ways in which a function of \<^verbatim>\<open>repository.go\<close> can end without returning a value:
  \<^item> \<open>ErrorNew m\<close>: the function returns an error value made here by \<^verbatim>\<open>errors.New(m)\<close>;
  \<^item> \<open>ExecError e\<close>: it returns the error \<open>e\<close> of an external command or library call
    (\<^verbatim>\<open>cmd.Output\<close>, \<^verbatim>\<open>cmd.Start\<close>, \<^verbatim>\<open>p.Run\<close>) unchanged;
  \<^item> \<open>IndexOutOfRange\<close>: a run-time panic, an index beyond the length of a slice;
  \<^item> \<open>OsExit c\<close>: the process ends through \<^verbatim>\<open>os.Exit(c)\<close>.
  A result is \<open>failure + 'a\<close>, with \<open>Inr\<close> for the value returned.
\<close>

datatype failure = ErrorNew string | ExecError string | IndexOutOfRange | OsExit int

text \<open>Reading \<^verbatim>\<open>xs[i]\<close>: Go panics where \<open>i\<close> is not below the length.\<close>

definition index :: "'a list \<Rightarrow> nat \<Rightarrow> failure + 'a" where
  "index xs i = (if i < length xs then Inr (xs ! i) else Inl IndexOutOfRange)"

section \<open>The functions of package strings that the code calls\<close>

text \<open>
  A Go string is a sequence of bytes, here a \<open>string\<close>. \<^verbatim>\<open>strings.Split(s, sep)\<close> with a
  separator of one byte cuts \<open>s\<close> at every separator and always returns at least one
  field: the number of fields is the number of separators plus one (so the first
  case below, no field at all, never arises).
\<close>

fun Split :: "string \<Rightarrow> char \<Rightarrow> string list" where
  "Split [] sep = [[]]"
| "Split (c # cs) sep =
     (case Split cs sep of
        [] \<Rightarrow> [[c]]
      | field # fields \<Rightarrow>
          if c = sep then [] # field # fields else (c # field) # fields)"

text \<open>
  \<^verbatim>\<open>strings.SplitN(s, sep, 2)\<close> cuts at the first separator only: two fields when \<open>s\<close>
  holds a separator, and the one field \<open>s\<close> when it holds none.
\<close>

definition SplitN2 :: "string \<Rightarrow> char \<Rightarrow> string list" where
  "SplitN2 s sep =
     (if sep \<in> set s then [takeWhile (\<lambda>c. c \<noteq> sep) s, tl (dropWhile (\<lambda>c. c \<noteq> sep) s)]
      else [s])"

definition HasPrefix :: "string \<Rightarrow> string \<Rightarrow> bool" where
  "HasPrefix s pre = (length pre \<le> length s \<and> take (length pre) s = pre)"

definition HasSuffix :: "string \<Rightarrow> string \<Rightarrow> bool" where
  "HasSuffix s suf =
     (length suf \<le> length s \<and> drop (length s - length suf) s = suf)"

definition TrimPrefix :: "string \<Rightarrow> string \<Rightarrow> string" where
  "TrimPrefix s pre = (if HasPrefix s pre then drop (length pre) s else s)"

definition TrimSuffix :: "string \<Rightarrow> string \<Rightarrow> string" where
  "TrimSuffix s suf = (if HasSuffix s suf then take (length s - length suf) s else s)"

section \<open>The remote reference table\<close>

text \<open>
  \<^verbatim>\<open>type RefToHash map[string]string\<close>. The map is an association list with distinct
  keys; \<^verbatim>\<open>refToHash[ref] = hash\<close> is \<open>AList.update ref hash\<close>, which replaces the value
  of a key already there, and \<^verbatim>\<open>refToHash[ref]\<close> is \<open>map_of\<close>.
\<close>

type_synonym RefToHash = "(string \<times> string) list"

abbreviation TAB :: char where "TAB \<equiv> CHR 0x09"
abbreviation LF :: char where "LF \<equiv> CHR 0x0A"
abbreviation SPACE :: char where "SPACE \<equiv> CHR 0x20"

text \<open>
  The body of the loop of \<^verbatim>\<open>toRefToHash\<close>: the line is split at every tab, fields 0 and 1
  are read (field 1 of a line without a tab is out of range) and the table is updated.
  Fields after the second are never looked at.
\<close>

definition toRefToHash_line :: "RefToHash \<Rightarrow> string \<Rightarrow> failure + RefToHash" where
  "toRefToHash_line refToHash v =
     (let delimited = Split v TAB in
      case index delimited 0 of
        Inl e \<Rightarrow> Inl e
      | Inr hash \<Rightarrow>
          (case index delimited 1 of
             Inl e \<Rightarrow> Inl e
           | Inr ref \<Rightarrow> Inr (AList.update ref hash refToHash)))"

fun toRefToHash_loop :: "RefToHash \<Rightarrow> string list \<Rightarrow> failure + RefToHash" where
  "toRefToHash_loop refToHash [] = Inr refToHash"
| "toRefToHash_loop refToHash (v # remotes) =
     (case toRefToHash_line refToHash v of
        Inl e \<Rightarrow> Inl e
      | Inr refToHash' \<Rightarrow> toRefToHash_loop refToHash' remotes)"

text \<open>The lines of the listing: the variable \<^verbatim>\<open>remotes\<close> of \<^verbatim>\<open>toRefToHash\<close>.\<close>

definition remotes :: "string \<Rightarrow> string list" where
  "remotes b = Split (TrimSuffix b [LF]) LF"

definition toRefToHash :: "string \<Rightarrow> failure + RefToHash" where
  "toRefToHash b = toRefToHash_loop [] (remotes b)"

text \<open>
  \<^verbatim>\<open>LsRemote\<close>: the outcome of \<^verbatim>\<open>git ls-remote -q\<close> is an input, \<open>Inl e\<close> when the command
  fails and \<open>Inr out\<close> with its output otherwise.
\<close>

definition LsRemote :: "string + string \<Rightarrow> failure + RefToHash" where
  "LsRemote ls_remote =
     (case ls_remote of Inl e \<Rightarrow> Inl (ExecError e) | Inr out \<Rightarrow> toRefToHash out)"

section \<open>The selector\<close>

text \<open>
  \<^verbatim>\<open>type prSelector struct\<close>. Go's \<^verbatim>\<open>int\<close> is modelled by \<open>int\<close>: the cursor moves by one
  between 0 and the number of choices, far from the 64-bit bounds.
\<close>

record prSelector =
  choices :: "string list"
  cursor :: int
  selected :: int
  repoName :: string

text \<open>
  A message of the terminal library: a key press, given by the name that
  \<^verbatim>\<open>tea.KeyMsg.String()\<close> returns for it, or a message of any other type (a window
  resize, for instance). A command is \<^verbatim>\<open>tea.Quit\<close> or \<^verbatim>\<open>nil\<close>.
\<close>

datatype msg = KeyMsg string | OtherMsg

datatype cmd = Quit | NoCmd

definition Update :: "prSelector \<Rightarrow> msg \<Rightarrow> prSelector \<times> cmd" where
  "Update p m =
     (case m of
        KeyMsg k \<Rightarrow>
          if k = ''q'' \<or> k = ''esc'' \<or> k = ''ctrl+c'' then (p, Quit)
          else if k = ''j'' \<or> k = ''down'' then
            (if cursor p < int (length (choices p)) - 1
             then p\<lparr>cursor := cursor p + 1\<rparr> else p, NoCmd)
          else if k = ''k'' \<or> k = ''up'' then
            (if cursor p > 0 then p\<lparr>cursor := cursor p - 1\<rparr> else p, NoCmd)
          else if k = ''enter'' then (p\<lparr>selected := cursor p\<rparr>, Quit)
          else (p, NoCmd)
      | OtherMsg \<Rightarrow> (p, NoCmd))"

text \<open>The model after a sequence of messages, whatever commands \<^verbatim>\<open>Update\<close> answered.\<close>

definition Updates :: "prSelector \<Rightarrow> msg list \<Rightarrow> prSelector" where
  "Updates p ms = foldl (\<lambda>p m. fst (Update p m)) p ms"

text \<open>\<^verbatim>\<open>View\<close>: a header, one row for each choice with \<^verbatim>\<open>>\<close> on the cursor's row, a footer.\<close>

definition View_row :: "prSelector \<Rightarrow> nat \<times> string \<Rightarrow> string" where
  "View_row p ic =
     (if cursor p = int (fst ic) then ''>'' else '' '') @ '' '' @ repoName p @ '' #'' @ snd ic @ [LF]"

definition View :: "prSelector \<Rightarrow> string" where
  "View p =
     ''Multiple pull requests found. Select one:'' @ [LF, LF] @
     concat (map (View_row p) (enumerate 0 (choices p))) @
     [LF] @ ''Press 'q' to quit, 'enter' to select.'' @ [LF]"

text \<open>
  The terminal is outside the repository. A session of the terminal is the sequence of
  messages it delivers, ended by the error with which \<^verbatim>\<open>p.Run()\<close> returns when the
  program has not quit by then (\<open>Fails e\<close> alone is a terminal that cannot be opened).
  \<^verbatim>\<open>tea.NewProgram(v).Run()\<close> draws the view, then hands each message to \<^verbatim>\<open>Update\<close> and
  redraws, until \<^verbatim>\<open>Update\<close> answers \<^verbatim>\<open>tea.Quit\<close>; it returns the last model. What the
  user can observe is recorded as a list of \<open>io\<close> events.
\<close>

datatype terminal = Msg msg terminal | Fails string

datatype io = NewProgram prSelector | Render string | Read msg

fun tea_loop :: "prSelector \<Rightarrow> terminal \<Rightarrow> (string + prSelector) \<times> io list" where
  "tea_loop p (Fails e) = (Inl e, [])"
| "tea_loop p (Msg m t) =
     (case Update p m of
        (p', Quit) \<Rightarrow> (Inr p', [Read m])
      | (p', NoCmd) \<Rightarrow>
          (case tea_loop p' t of (r, tr) \<Rightarrow> (r, Read m # Render (View p') # tr)))"

definition tea_Run :: "prSelector \<Rightarrow> terminal \<Rightarrow> (string + prSelector) \<times> io list" where
  "tea_Run v t =
     (case t of
        Fails e \<Rightarrow> (Inl e, [NewProgram v])
      | Msg m t' \<Rightarrow>
          (case tea_loop v t of (r, tr) \<Rightarrow> (r, NewProgram v # Render (View v) # tr)))"

text \<open>The two fields of \<^verbatim>\<open>BacklogRepository\<close> that \<^verbatim>\<open>selectPR\<close> reads.\<close>

record BacklogRepository =
  b_projectKey :: string
  b_repoName :: string

text \<open>
  \<^verbatim>\<open>selectPR\<close> returns its result together with the events on the terminal. An index
  \<^verbatim>\<open>prIDs[idx]\<close> with a negative \<open>idx\<close> panics as one beyond the length does.
  \<open>new_prSelector\<close> is the value \<^verbatim>\<open>v\<close> with which the program starts.
\<close>

definition new_prSelector :: "BacklogRepository \<Rightarrow> string list \<Rightarrow> prSelector" where
  "new_prSelector b prIDs =
     \<lparr>choices = prIDs, cursor = 0, selected = -1,
      repoName = b_projectKey b @ ''/'' @ b_repoName b\<rparr>"

definition selectPR ::
  "BacklogRepository \<Rightarrow> terminal \<Rightarrow> string list \<Rightarrow> (failure + string) \<times> io list" where
  "selectPR b t prIDs =
     (if length prIDs = 1 then (index prIDs 0, [])
      else
        let v = new_prSelector b prIDs
        in case tea_Run v t of
             (Inl e, tr) \<Rightarrow> (Inl (ExecError e), tr)
           | (Inr result, tr) \<Rightarrow>
               (let idx = selected result in
                if idx = -1 then (Inl (OsExit 0), tr)
                else if idx < 0 then (Inl IndexOutOfRange, tr)
                else (index prIDs (nat idx), tr)))"

section \<open>Matching pull request references\<close>

definition refPrefix :: string where
  "refPrefix = ''refs/''"

definition refPullRequestPrefix :: string where
  "refPullRequestPrefix = refPrefix @ ''pull/''"

definition refPullRequestSuffix :: string where
  "refPullRequestSuffix = ''/head''"

definition isPRRef :: "string \<Rightarrow> bool" where
  "isPRRef ref = (HasPrefix ref refPullRequestPrefix \<and> HasSuffix ref refPullRequestSuffix)"

definition extractPRID :: "string \<Rightarrow> string" where
  "extractPRID ref = TrimSuffix (TrimPrefix ref refPullRequestPrefix) refPullRequestSuffix"

text \<open>
  \<^verbatim>\<open>sort.Sort(sort.Reverse(sort.StringSlice(prIDs)))\<close>: the slice is put in the order in
  which \<open>x\<close> comes before \<open>y\<close> when \<open>y < x\<close>, where \<open><\<close> is Go's order of strings, the
  lexicographic order of their bytes, written out as \<open>string_less\<close>. It is the order
  \<open><\<close> of \<open>string\<close> here (bytes by their codes, lists lexicographically), in which
  \<open>sort\<close> sorts.
\<close>

fun string_less :: "string \<Rightarrow> string \<Rightarrow> bool" where
  "string_less [] [] = False"
| "string_less [] (y # ys) = True"
| "string_less (x # xs) [] = False"
| "string_less (x # xs) (y # ys) =
     ((of_char x :: nat) < of_char y \<or> x = y \<and> string_less xs ys)"

definition sort_Reverse :: "string list \<Rightarrow> string list" where
  "sort_Reverse prIDs = rev (sort prIDs)"

text \<open>
  The loop over the table (the order in which Go visits a map is not fixed; here it
  is the order of the association list, and the sort that follows makes the result
  the same for every order).
\<close>

definition collect_prIDs :: "RefToHash \<Rightarrow> string \<Rightarrow> string list" where
  "collect_prIDs refToHash targetHash =
     map (\<lambda>(ref, hash). extractPRID ref)
       (filter (\<lambda>(ref, hash). isPRRef ref \<and> hash = targetHash) refToHash)"

text \<open>
  \<^verbatim>\<open>findPullRequestIDFromRemote\<close> from the lookup of the target to the sort: the list of
  candidates that it hands to \<^verbatim>\<open>selectPR\<close>.
\<close>

definition candidates :: "RefToHash \<Rightarrow> string \<Rightarrow> failure + string list" where
  "candidates refToHash ref =
     (case map_of refToHash ref of
        None \<Rightarrow> Inl (ErrorNew ''not found a current branch in remote'')
      | Some targetHash \<Rightarrow>
          (let prIDs = collect_prIDs refToHash targetHash in
           if length prIDs = 0
           then Inl (ErrorNew ''not found a pull request related to current branch'')
           else Inr (sort_Reverse prIDs)))"

definition findPullRequestIDFromRemote ::
  "BacklogRepository \<Rightarrow> string + string \<Rightarrow> terminal \<Rightarrow> string \<Rightarrow> (failure + string) \<times> io list" where
  "findPullRequestIDFromRemote b ls_remote t ref =
     (case LsRemote ls_remote of
        Inl e \<Rightarrow> (Inl e, [])
      | Inr refToHash \<Rightarrow>
          (case candidates refToHash ref of
             Inl e \<Rightarrow> (Inl e, [])
           | Inr prIDs \<Rightarrow> selectPR b t prIDs))"

section \<open>Blame attribution\<close>

subsection \<open>The merge-commit pattern\<close>

text \<open>
  The pattern of \<^verbatim>\<open>lookup\<close> is
  \<^verbatim>\<open>^[a-f0-9]+ Merge pull request #([0-9]+) \S+ into \S+\<close>.
  It is anchored at the start of the text, and every repetition in it is followed by a
  space, which no member of the repeated class is (\<^verbatim>\<open>\S\<close> is every byte but tab, line
  feed, form feed, carriage return and space). So a match, if there is one, takes the
  longest run of each class, and the matcher below reads the text once from the left.
  \<^verbatim>\<open>FindStringSubmatch\<close> returns \<^verbatim>\<open>nil\<close> (here \<open>[]\<close>) when the pattern does not match,
  and otherwise the text matched followed by the text of group 1.
\<close>

definition is_hex :: "char \<Rightarrow> bool" where
  "is_hex c = (CHR ''a'' \<le> c \<and> c \<le> CHR ''f'' \<or> CHR ''0'' \<le> c \<and> c \<le> CHR ''9'')"

definition is_digit :: "char \<Rightarrow> bool" where
  "is_digit c = (CHR ''0'' \<le> c \<and> c \<le> CHR ''9'')"

definition is_nonspace :: "char \<Rightarrow> bool" where
  "is_nonspace c = (c \<noteq> TAB \<and> c \<noteq> LF \<and> c \<noteq> CHR 0x0C \<and> c \<noteq> CHR 0x0D \<and> c \<noteq> SPACE)"

definition literal :: "string \<Rightarrow> string \<Rightarrow> string option" where
  "literal lit s = (if HasPrefix s lit then Some (drop (length lit) s) else None)"

definition FindStringSubmatch :: "string \<Rightarrow> string list" where
  "FindStringSubmatch out =
     (let h = takeWhile is_hex out in
      if h = [] then []
      else case literal '' Merge pull request #'' (dropWhile is_hex out) of
        None \<Rightarrow> []
      | Some r2 \<Rightarrow>
          (let d = takeWhile is_digit r2 in
           if d = [] then []
           else case literal '' '' (dropWhile is_digit r2) of
             None \<Rightarrow> []
           | Some r4 \<Rightarrow>
               (let a = takeWhile is_nonspace r4 in
                if a = [] then []
                else case literal '' into '' (dropWhile is_nonspace r4) of
                  None \<Rightarrow> []
                | Some r6 \<Rightarrow>
                    (let b = takeWhile is_nonspace r6 in
                     if b = [] then []
                     else [h @ '' Merge pull request #'' @ d @ '' '' @ a @ '' into '' @ b, d]))))"

subsection \<open>Numbers and their decimal text\<close>

text \<open>
  \<^verbatim>\<open>strconv.Atoi\<close>: an optional sign and one or more decimal digits; \<open>None\<close> is its
  error, for other text and for a number out of the range of \<^verbatim>\<open>int\<close> (64 bits).
  \<^verbatim>\<open>%d\<close> prints the number in decimal with no leading zero.
\<close>

definition decimal :: "string \<Rightarrow> nat" where
  "decimal ds = fold (\<lambda>c n. n * 10 + (of_char c - 48)) ds 0"

definition Atoi :: "string \<Rightarrow> int option" where
  "Atoi s =
     (let neg = (s \<noteq> [] \<and> hd s = CHR ''-'');
          ds = (if s \<noteq> [] \<and> (hd s = CHR ''-'' \<or> hd s = CHR ''+'') then tl s else s)
      in if ds = [] \<or> \<not> list_all is_digit ds then None
         else let n = (if neg then - int (decimal ds) else int (decimal ds))
              in if - (2 ^ 63) \<le> n \<and> n < 2 ^ 63 then Some n else None)"

fun digits :: "nat \<Rightarrow> string" where
  "digits n =
     (if n < 10 then [''0123456789'' ! n]
      else digits (n div 10) @ [''0123456789'' ! (n mod 10)])"

declare digits.simps [simp del]

definition Itoa :: "int \<Rightarrow> string" where
  "Itoa i = (if i < 0 then CHR ''-'' # digits (nat (- i)) else digits (nat i))"

subsection \<open>lookup\<close>

text \<open>
  \<^verbatim>\<open>git show --oneline <commit>\<close> is outside the repository: \<open>git_show\<close> gives its outcome,
  \<open>Inl e\<close> when the command fails and \<open>Inr out\<close> with its output otherwise. Its first
  argument is the list of the commits asked for before, so that the command may
  answer differently each time it is run.
\<close>

type_synonym git_show = "string list \<Rightarrow> string \<Rightarrow> string + string"

definition lookup :: "git_show \<Rightarrow> string list \<Rightarrow> string \<Rightarrow> failure + string" where
  "lookup git_show asked commit =
     (case git_show asked commit of
        Inl e \<Rightarrow> Inl (ExecError e)
      | Inr out \<Rightarrow>
          (let matches = FindStringSubmatch out in
           if length matches < 1 then Inr commit
           else case index matches 1 of
             Inl e \<Rightarrow> Inl e
           | Inr m1 \<Rightarrow>
               (case Atoi m1 of
                  None \<Rightarrow> Inr commit
                | Some n \<Rightarrow> Inr (''PR #'' @ Itoa n))))"

subsection \<open>BlamePR\<close>

text \<open>
  What one run of \<^verbatim>\<open>BlamePR\<close> has done so far: the map \<^verbatim>\<open>cached\<close>, the commits for which
  \<^verbatim>\<open>lookup\<close> was called, in order, and the calls of \<^verbatim>\<open>fmt.Printf\<close>, each with the width
  \<^verbatim>\<open>padding\<close> of its format \<^verbatim>\<open>"%-<padding>s %s\n"\<close> and its two arguments.
\<close>

record printf_call =
  padding :: nat
  label :: string
  src :: string

record blame_state =
  cached :: "string \<rightharpoonup> string"
  calls :: "string list"
  printed :: "printf_call list"

text \<open>Reading \<^verbatim>\<open>cached[commit]\<close>: the empty string for a key that is not in the map.\<close>

definition cached_at :: "blame_state \<Rightarrow> string \<Rightarrow> string" where
  "cached_at st commit = (case cached st commit of None \<Rightarrow> [] | Some pr \<Rightarrow> pr)"

text \<open>
  The body of the loop for one line of the scanner. It returns the new state, and the
  failure with which \<^verbatim>\<open>BlamePR\<close> stops, if it does.
\<close>

definition BlamePR_line :: "git_show \<Rightarrow> blame_state \<Rightarrow> string \<Rightarrow> blame_state \<times> failure option" where
  "BlamePR_line git_show st text =
     (let commitAndSrc = SplitN2 text SPACE in
      case index commitAndSrc 0 of
        Inl e \<Rightarrow> (st, Some e)
      | Inr commit \<Rightarrow>
          (case index commitAndSrc 1 of
             Inl e \<Rightarrow> (st, Some e)
           | Inr src' \<Rightarrow>
               (case (if cached st commit = None
                      then (case lookup git_show (calls st) commit of
                              Inl e \<Rightarrow> (st\<lparr>calls := calls st @ [commit]\<rparr>, Some e)
                            | Inr pr \<Rightarrow>
                                (st\<lparr>cached := (cached st)(commit \<mapsto> pr),
                                    calls := calls st @ [commit]\<rparr>, None))
                      else (st, None)) of
                  (st1, Some e) \<Rightarrow> (st1, Some e)
                | (st1, None) \<Rightarrow>
                    (let size' = length (cached_at st1 commit);
                         padding' = (if length commit < size' then size' else length commit)
                     in (st1\<lparr>printed := printed st1 @
                               [\<lparr>padding = padding', label = cached_at st1 commit, src = src'\<rparr>]\<rparr>,
                         None)))))"

fun BlamePR_loop :: "git_show \<Rightarrow> blame_state \<Rightarrow> string list \<Rightarrow> blame_state \<times> failure option" where
  "BlamePR_loop git_show st [] = (st, None)"
| "BlamePR_loop git_show st (text # texts) =
     (case BlamePR_line git_show st text of
        (st', Some e) \<Rightarrow> (st', Some e)
      | (st', None) \<Rightarrow> BlamePR_loop git_show st' texts)"

text \<open>
  \<^verbatim>\<open>git blame --first-parent <argv>\<close> is outside the repository: \<open>git_blame\<close> gives, for
  the arguments of the command, \<open>Inl e\<close> when the pipe or the start of the command
  fails and otherwise the lines that the scanner reads from its output.
\<close>

definition empty_state :: blame_state where
  "empty_state = \<lparr>cached = Map.empty, calls = [], printed = []\<rparr>"

definition BlamePR ::
  "(string list \<Rightarrow> string + string list) \<Rightarrow> git_show \<Rightarrow> string list \<Rightarrow> blame_state \<times> failure option" where
  "BlamePR git_blame git_show argv =
     (case git_blame ([''blame'', ''--first-parent''] @ argv) of
        Inl e \<Rightarrow> (empty_state, Some (ExecError e))
      | Inr texts \<Rightarrow> BlamePR_loop git_show empty_state texts)"

subsection \<open>The fields of a line, and what the loop maintains\<close>

text \<open>
  The two fields of a line that holds a space, and the call of \<^verbatim>\<open>fmt.Printf\<close> for a line
  whose commit has the label \<open>pr\<close>.
\<close>

definition commit_of :: "string \<Rightarrow> string" where
  "commit_of text = takeWhile (\<lambda>c. c \<noteq> SPACE) text"

definition src_of :: "string \<Rightarrow> string" where
  "src_of text = tl (dropWhile (\<lambda>c. c \<noteq> SPACE) text)"

definition printf_of :: "string \<Rightarrow> string \<Rightarrow> printf_call" where
  "printf_of text pr =
     \<lparr>padding = max (length (commit_of text)) (length pr), label = pr, src = src_of text\<rparr>"

text \<open>
  \<open>blame_inv seen st\<close> holds when \<open>st\<close> is the state after the lines \<open>seen\<close>, all of them
  printed; \<open>blame_post texts st r\<close> is what holds of the state \<open>st\<close> and the outcome \<open>r\<close>
  with which the loop over \<open>texts\<close> ends.
\<close>

definition blame_inv :: "string list \<Rightarrow> blame_state \<Rightarrow> bool" where
  "blame_inv seen st \<longleftrightarrow>
     distinct (calls st) \<and> set (calls st) = commit_of ` set seen \<and>
     dom (cached st) = set (calls st) \<and> length (printed st) = length seen \<and>
     (\<forall>i<length seen. cached st (commit_of (seen ! i)) = Some (label (printed st ! i)))"

definition blame_post :: "string list \<Rightarrow> blame_state \<Rightarrow> failure option \<Rightarrow> bool" where
  "blame_post texts st r \<longleftrightarrow>
     distinct (calls st) \<and> set (calls st) \<subseteq> commit_of ` set texts \<and>
     length (printed st) \<le> length texts \<and>
     (\<forall>i<length (printed st). cached st (commit_of (texts ! i)) = Some (label (printed st ! i))) \<and>
     (r = None \<longrightarrow> length (printed st) = length texts \<and> set (calls st) = commit_of ` set texts)"

section \<open>Inputs used as examples\<close>

text \<open>
  A \<^verbatim>\<open>git show\<close> that fails for the commit \<^verbatim>\<open>bad\<close>, answers with a merge summary for the
  commit \<^verbatim>\<open>abc\<close> only when the one commit asked for before is \<^verbatim>\<open>deadbeef\<close>, and with an
  ordinary summary otherwise; and a \<^verbatim>\<open>git blame\<close> of four lines for the file \<^verbatim>\<open>f.go\<close>.
\<close>

definition example_git_show :: git_show where
  "example_git_show asked commit =
     (if commit = ''bad'' then Inl ''exit status 128''
      else if commit = ''abc'' \<and> asked = [''deadbeef'']
        then Inr ''abc Merge pull request #42 feature/x into master''
      else Inr (commit @ '' fix typo''))"

definition example_git_blame :: "string list \<Rightarrow> string + string list" where
  "example_git_blame argv =
     (if argv = [''blame'', ''--first-parent'', ''f.go'']
      then Inr [''deadbeef line one'', ''abc x  y'', ''deadbeef line two'', ''abc z'']
      else Inl ''exit status 128'')"

subsection \<open>Remote listings used as examples\<close>

definition listing_9_10_100 :: string where
  "listing_9_10_100 =
     ''abc123'' @ [TAB] @ ''refs/heads/feature'' @ [LF] @
     ''abc123'' @ [TAB] @ ''refs/pull/9/head'' @ [LF] @
     ''abc123'' @ [TAB] @ ''refs/pull/100/head'' @ [LF] @
     ''fff000'' @ [TAB] @ ''refs/pull/7/head'' @ [LF] @
     ''abc123'' @ [TAB] @ ''refs/pull/10/head'' @ [LF]"

definition listing_pull_head :: string where
  "listing_pull_head =
     ''abc123'' @ [TAB] @ ''refs/heads/feature'' @ [LF] @
     ''abc123'' @ [TAB] @ ''refs/pull/head'' @ [LF]"

section \<open>Properties of the string functions\<close>

lemma Split_not_Nil: "Split s sep \<noteq> []"
  by (induction s) (auto split: list.splits)

lemma length_Split: "length (Split s sep) = Suc (count_list s sep)"
  by (induction s) (auto split: list.splits simp: Split_not_Nil)

lemma length_Split_ge2: "2 \<le> length (Split s sep) \<longleftrightarrow> sep \<in> set s"
  using count_list_0_iff [of s sep] by (auto simp: length_Split)

text \<open>The order in which \<open>sort\<close> sorts strings is Go's.\<close>

lemma string_less_iff: "string_less x y \<longleftrightarrow> x < y"
  by (induction x y rule: string_less.induct) (auto simp: less_char_def)

section \<open>Properties of toRefToHash\<close>

lemma toRefToHash_line_no_tab:
  "TAB \<notin> set v \<Longrightarrow> toRefToHash_line t v = Inl IndexOutOfRange"
  using length_Split_ge2 [of v TAB]
  by (auto simp: toRefToHash_line_def index_def Let_def)

lemma toRefToHash_line_tab:
  "TAB \<in> set v \<Longrightarrow>
   toRefToHash_line t v = Inr (AList.update (Split v TAB ! 1) (Split v TAB ! 0) t)"
  using length_Split_ge2 [of v TAB]
  by (auto simp: toRefToHash_line_def index_def Let_def)

lemma toRefToHash_loop_panics:
  "\<exists>v\<in>set vs. TAB \<notin> set v \<Longrightarrow> toRefToHash_loop t vs = Inl IndexOutOfRange"
proof (induction vs arbitrary: t)
  case Nil
  then show ?case by simp
next
  case (Cons v vs)
  show ?case
  proof (cases "TAB \<in> set v")
    case True
    with Cons show ?thesis by (auto simp: toRefToHash_line_tab)
  next
    case False
    then show ?thesis by (simp add: toRefToHash_line_no_tab)
  qed
qed

lemma toRefToHash_loop_ok:
  "\<forall>v\<in>set vs. TAB \<in> set v \<Longrightarrow>
   toRefToHash_loop t vs =
     Inr (fold (\<lambda>v. AList.update (Split v TAB ! 1) (Split v TAB ! 0)) vs t)"
  by (induction vs arbitrary: t) (auto simp: toRefToHash_line_tab)

lemma distinct_fold_update:
  "distinct (map fst t) \<Longrightarrow> distinct (map fst (fold (\<lambda>v. AList.update (f v) (g v)) vs t))"
  by (induction vs arbitrary: t) (auto simp: distinct_update)

text \<open>A table that \<^verbatim>\<open>toRefToHash\<close> returns has each reference name once, as a Go map has.\<close>

lemma toRefToHash_distinct:
  assumes "toRefToHash b = Inr t"
  shows "distinct (map fst t)"
proof (cases "\<exists>v\<in>set (remotes b). TAB \<notin> set v")
  case True
  then show ?thesis
    using assms toRefToHash_loop_panics [of "remotes b" "[]"] by (simp add: toRefToHash_def)
next
  case False
  then have "toRefToHash b =
      Inr (fold (\<lambda>v. AList.update (Split v TAB ! 1) (Split v TAB ! 0)) (remotes b) [])"
    using toRefToHash_loop_ok [of "remotes b" "[]"] by (simp add: toRefToHash_def)
  with assms show ?thesis
    using distinct_fold_update [of "[]"] by auto
qed

text \<open>
  Claim C5 says that \<^verbatim>\<open>toRefToHash\<close> fails with a parse error, an error value and not a
  panic, whenever a line of the listing does not split into exactly two fields at the
  tabs. The code does not: a line of three fields is accepted, and a line of one field
  makes the index \<^verbatim>\<open>delimited[1]\<close> panic.
\<close>

theorem toRefToHash_ParseError_counterexample:
  "length (Split (''a'' @ [TAB] @ ''r'' @ [TAB] @ ''x'') TAB) = 3 \<and>
   toRefToHash (''a'' @ [TAB] @ ''r'' @ [TAB] @ ''x'' @ [LF]) = Inr [(''r'', ''a'')] \<and>
   length (Split ''abc'' TAB) = 1 \<and>
   toRefToHash ''abc'' = Inl IndexOutOfRange"
  by (simp add: toRefToHash_def remotes_def TrimSuffix_def HasSuffix_def toRefToHash_line_def index_def)

text \<open>
  Claim C5, as amended: \<^verbatim>\<open>toRefToHash\<close> has no error value. When some line of the listing
  holds no tab (it has fewer than two fields) the whole call panics with an index out of
  range, and no line is skipped; when every line holds a tab the call returns the table
  in which the second field of each line is mapped to its first field, later lines
  replacing earlier ones, whatever follows the second field.
\<close>

theorem toRefToHash_panics_or_accepts:
  "((\<exists>v\<in>set (remotes b). TAB \<notin> set v) \<longrightarrow> toRefToHash b = Inl IndexOutOfRange) \<and>
   ((\<forall>v\<in>set (remotes b). TAB \<in> set v) \<longrightarrow>
      toRefToHash b =
        Inr (fold (\<lambda>v. AList.update (Split v TAB ! 1) (Split v TAB ! 0)) (remotes b) []))"
  using toRefToHash_loop_panics [of "remotes b" "[]"] toRefToHash_loop_ok [of "remotes b" "[]"]
  by (simp add: toRefToHash_def)

theorem toRefToHash_panics_or_accepts_witness:
  "(\<exists>v\<in>set (remotes ''abc''). TAB \<notin> set v) \<and> toRefToHash ''abc'' = Inl IndexOutOfRange \<and>
   list_all (\<lambda>v. TAB \<in> set v) (remotes (''a'' @ [TAB] @ ''r'' @ [TAB] @ ''x'' @ [LF])) \<and>
   toRefToHash (''a'' @ [TAB] @ ''r'' @ [TAB] @ ''x'' @ [LF]) = Inr [(''r'', ''a'')]"
proof -
  have a: "\<exists>v\<in>set (remotes ''abc''). TAB \<notin> set v"
    by (simp add: remotes_def TrimSuffix_def HasSuffix_def)
  have b: "\<forall>v\<in>set (remotes (''a'' @ [TAB] @ ''r'' @ [TAB] @ ''x'' @ [LF])). TAB \<in> set v"
    by (simp add: remotes_def TrimSuffix_def HasSuffix_def)
  show ?thesis
    using a b toRefToHash_panics_or_accepts [of "''abc''"]
      toRefToHash_panics_or_accepts [of "''a'' @ [TAB] @ ''r'' @ [TAB] @ ''x'' @ [LF]"]
    by (simp add: remotes_def TrimSuffix_def HasSuffix_def)
qed

section \<open>Properties of the sort\<close>

lemma sort_Reverse_sorted: "sorted_wrt (\<lambda>x y. \<not> string_less x y) (sort_Reverse xs)"
proof -
  have "sorted_wrt (\<lambda>x y. y \<le> x) (rev (sort xs))"
    by (simp add: sorted_wrt_rev)
  then show ?thesis
    by (simp add: sort_Reverse_def string_less_iff not_less)
qed

lemma sort_Reverse_mset: "mset (sort_Reverse xs) = mset xs"
  by (simp add: sort_Reverse_def)

text \<open>The order in which the map is visited does not change the sorted list.\<close>

lemma sort_Reverse_order_irrelevant:
  "mset xs = mset ys \<Longrightarrow> sort_Reverse xs = sort_Reverse ys"
  by (simp add: sort_Reverse_def properties_for_sort)

text \<open>
  Claim C7 says that the descending lexical sort of \<^verbatim>\<open>["12","5","100"]\<close> is
  \<^verbatim>\<open>["5","100","12"]\<close>. It is not: \<^verbatim>\<open>"12"\<close> is above \<^verbatim>\<open>"100"\<close>, since they differ first in
  their second bytes and \<^verbatim>\<open>'2'\<close> is above \<^verbatim>\<open>'0'\<close>.
\<close>

theorem sort_Reverse_12_5_100_counterexample:
  "sort_Reverse [''12'', ''5'', ''100''] \<noteq> [''5'', ''100'', ''12'']"
  by (simp add: sort_Reverse_def)

text \<open>
  Claim C7, as amended: for the candidates \<^verbatim>\<open>["12","5","100"]\<close> the descending lexical
  sort of the matcher yields exactly \<^verbatim>\<open>["5","12","100"]\<close>.
\<close>

theorem sort_Reverse_12_5_100:
  "sort_Reverse [''12'', ''5'', ''100''] = [''5'', ''12'', ''100'']"
  by (simp add: sort_Reverse_def)

section \<open>Properties of the selector\<close>

text \<open>The five things \<^verbatim>\<open>Update\<close> can do.\<close>

lemma Update_cases:
  "Update p m = (p, Quit) \<or> Update p m = (p, NoCmd) \<or>
   cursor p < int (length (choices p)) - 1 \<and> Update p m = (p\<lparr>cursor := cursor p + 1\<rparr>, NoCmd) \<or>
   cursor p > 0 \<and> Update p m = (p\<lparr>cursor := cursor p - 1\<rparr>, NoCmd) \<or>
   Update p m = (p\<lparr>selected := cursor p\<rparr>, Quit)"
  by (cases m) (simp_all add: Update_def)

lemma Update_choices: "choices (fst (Update p m)) = choices p"
  using Update_cases [of p m] by auto

lemma Update_cursor_bounds:
  assumes "0 \<le> cursor p" and "cursor p \<le> int (length (choices p)) - 1"
  shows "0 \<le> cursor (fst (Update p m)) \<and> cursor (fst (Update p m)) \<le> int (length (choices p)) - 1"
  using Update_cases [of p m] assms by auto

lemma Updates_invariant:
  "0 \<le> cursor p \<Longrightarrow> cursor p \<le> int (length (choices p)) - 1 \<Longrightarrow>
   choices (Updates p ms) = choices p \<and>
   0 \<le> cursor (Updates p ms) \<and> cursor (Updates p ms) \<le> int (length (choices p)) - 1"
proof (induction ms arbitrary: p)
  case Nil
  then show ?case by (simp add: Updates_def)
next
  case (Cons m ms)
  have step: "0 \<le> cursor (fst (Update p m))"
    "cursor (fst (Update p m)) \<le> int (length (choices (fst (Update p m)))) - 1"
    using Update_cursor_bounds [OF Cons.prems] by (simp_all add: Update_choices)
  have "Updates p (m # ms) = Updates (fst (Update p m)) ms"
    by (simp add: Updates_def)
  with Cons.IH [OF step] show ?case
    by (simp add: Update_choices)
qed

lemma Update_keys:
  "Update q (KeyMsg ''down'') =
     (if cursor q < int (length (choices q)) - 1 then q\<lparr>cursor := cursor q + 1\<rparr> else q, NoCmd)"
  "Update q (KeyMsg ''j'') =
     (if cursor q < int (length (choices q)) - 1 then q\<lparr>cursor := cursor q + 1\<rparr> else q, NoCmd)"
  "Update q (KeyMsg ''up'') = (if cursor q > 0 then q\<lparr>cursor := cursor q - 1\<rparr> else q, NoCmd)"
  "Update q (KeyMsg ''k'') = (if cursor q > 0 then q\<lparr>cursor := cursor q - 1\<rparr> else q, NoCmd)"
  "Update q (KeyMsg ''enter'') = (q\<lparr>selected := cursor q\<rparr>, Quit)"
  "Update q (KeyMsg ''q'') = (q, Quit)"
  "Update q (KeyMsg ''esc'') = (q, Quit)"
  "Update q (KeyMsg ''ctrl+c'') = (q, Quit)"
  "Update q OtherMsg = (q, NoCmd)"
  by (simp_all add: Update_def)

text \<open>
  Claim C9: from a selector \<open>p\<close> with cursor 0 over a list of choices that is not empty,
  after every sequence \<open>ms\<close> of messages (keys of any kind and other messages) the cursor
  is between 0 and the last index of the choices, which never change. In every state
  \<open>q\<close>, moving down adds one to the cursor only when it is below the last index, moving
  up takes one off only when it is above 0, and confirming sets the selected index to
  the cursor and quits.
\<close>

theorem cursor_in_bounds:
  assumes "choices p \<noteq> []" and "cursor p = 0"
  shows "0 \<le> cursor (Updates p ms) \<and>
         cursor (Updates p ms) \<le> int (length (choices (Updates p ms))) - 1 \<and>
         choices (Updates p ms) = choices p \<and>
         Update q (KeyMsg ''down'') =
           (if cursor q < int (length (choices q)) - 1 then q\<lparr>cursor := cursor q + 1\<rparr> else q, NoCmd) \<and>
         Update q (KeyMsg ''up'') =
           (if cursor q > 0 then q\<lparr>cursor := cursor q - 1\<rparr> else q, NoCmd) \<and>
         Update q (KeyMsg ''enter'') = (q\<lparr>selected := cursor q\<rparr>, Quit)"
proof -
  from assms have "0 \<le> cursor p" "cursor p \<le> int (length (choices p)) - 1"
    by (cases "choices p"; simp)+
  from Updates_invariant [OF this, of ms] show ?thesis
    by (simp add: Update_keys)
qed

theorem cursor_in_bounds_witness:
  "cursor (Updates (new_prSelector \<lparr>b_projectKey = ''P'', b_repoName = ''r''\<rparr> [''9'', ''10''])
      [KeyMsg ''up'', KeyMsg ''down'', KeyMsg ''down'', KeyMsg ''j'', OtherMsg, KeyMsg ''x'']) = 1 \<and>
   Update (Updates (new_prSelector \<lparr>b_projectKey = ''P'', b_repoName = ''r''\<rparr> [''9'', ''10''])
      [KeyMsg ''up'', KeyMsg ''down'', KeyMsg ''down'', KeyMsg ''j'', OtherMsg, KeyMsg ''x''])
      (KeyMsg ''enter'') =
     (\<lparr>choices = [''9'', ''10''], cursor = 1, selected = 1, repoName = ''P/r''\<rparr>, Quit)"
  using cursor_in_bounds [of "new_prSelector \<lparr>b_projectKey = ''P'', b_repoName = ''r''\<rparr> [''9'', ''10'']"
      "[KeyMsg ''up'', KeyMsg ''down'', KeyMsg ''down'', KeyMsg ''j'', OtherMsg, KeyMsg ''x'']"
      "Updates (new_prSelector \<lparr>b_projectKey = ''P'', b_repoName = ''r''\<rparr> [''9'', ''10''])
      [KeyMsg ''up'', KeyMsg ''down'', KeyMsg ''down'', KeyMsg ''j'', OtherMsg, KeyMsg ''x'']"]
  by (simp add: new_prSelector_def Updates_def Update_def)

section \<open>Properties of selectPR\<close>

text \<open>
  Claim C2: for a list of exactly one candidate, \<^verbatim>\<open>selectPR\<close> returns that candidate and
  nothing happens on the terminal, whatever the terminal would deliver: no program is
  made, no view is drawn, no message is read.
\<close>

theorem selectPR_single:
  "length prIDs = 1 \<Longrightarrow> selectPR b t prIDs = (Inr (prIDs ! 0), [])"
  by (simp add: selectPR_def index_def)

theorem selectPR_single_witness:
  "length [''42''] = 1 \<and>
   selectPR \<lparr>b_projectKey = ''P'', b_repoName = ''r''\<rparr> (Msg (KeyMsg ''q'') (Fails ''closed'')) [''42'']
     = (Inr ''42'', [])"
  using selectPR_single [of "[''42'']" "\<lparr>b_projectKey = ''P'', b_repoName = ''r''\<rparr>"
      "Msg (KeyMsg ''q'') (Fails ''closed'')"]
  by simp

text \<open>With any other number of candidates the program is made: the events are not empty.\<close>

lemma tea_Run_trace: "\<exists>r tr. tea_Run v t = (r, NewProgram v # tr)"
  by (cases t) (auto simp: tea_Run_def split: prod.splits)

lemma selectPR_interactive:
  "length prIDs \<noteq> 1 \<Longrightarrow> \<exists>tr. snd (selectPR b t prIDs) = NewProgram (new_prSelector b prIDs) # tr"
  using tea_Run_trace [of "new_prSelector b prIDs" t]
  by (auto simp: selectPR_def Let_def split: sum.splits)

text \<open>A run that ends with the selected index still at -1 ends the process with code 0.\<close>

lemma selectPR_aborted:
  "length prIDs \<noteq> 1 \<Longrightarrow> tea_Run (new_prSelector b prIDs) t = (Inr result, tr) \<Longrightarrow>
   selected result = -1 \<Longrightarrow> selectPR b t prIDs = (Inl (OsExit 0), tr)"
  by (simp add: selectPR_def)

lemma Update_other_key:
  "m \<notin> KeyMsg ` {''q'', ''esc'', ''ctrl+c'', ''enter''} \<Longrightarrow>
   snd (Update p m) = NoCmd \<and> selected (fst (Update p m)) = selected p"
  by (cases m) (auto simp: Update_def)

lemma tea_loop_quit:
  assumes "\<forall>m\<in>set ms. m \<notin> KeyMsg ` {''q'', ''esc'', ''ctrl+c'', ''enter''}"
    and "k \<in> {''q'', ''esc'', ''ctrl+c''}"
  shows "\<exists>result tr. tea_loop p (foldr Msg ms (Msg (KeyMsg k) t)) = (Inr result, tr) \<and>
           selected result = selected p"
  using assms(1)
proof (induction ms arbitrary: p)
  case Nil
  from assms(2) have "Update p (KeyMsg k) = (p, Quit)"
    by (auto simp: Update_def)
  then show ?case by simp
next
  case (Cons m ms)
  obtain p' where p': "Update p m = (p', NoCmd)" "selected p' = selected p"
    using Update_other_key [of m p] Cons.prems by (cases "Update p m") auto
  from Cons.IH [of p'] Cons.prems obtain result tr
    where "tea_loop p' (foldr Msg ms (Msg (KeyMsg k) t)) = (Inr result, tr)"
      "selected result = selected p'"
    by auto
  with p' show ?case by simp
qed

text \<open>
  Claim C3: when there is not exactly one candidate and the user presses a quit key
  (\<^verbatim>\<open>q\<close>, \<^verbatim>\<open>esc\<close> or \<^verbatim>\<open>ctrl+c\<close>) after any messages \<open>ms\<close> that neither quit nor confirm, the
  selector ends with its selected index still -1, and \<^verbatim>\<open>selectPR\<close> ends the process
  with exit code 0: it returns neither a value nor an error.
\<close>

theorem selectPR_abort_exits_0:
  assumes "length prIDs \<noteq> 1"
    and "\<forall>m\<in>set ms. m \<notin> KeyMsg ` {''q'', ''esc'', ''ctrl+c'', ''enter''}"
    and "k \<in> {''q'', ''esc'', ''ctrl+c''}"
  shows "\<exists>result tr.
           tea_Run (new_prSelector b prIDs) (foldr Msg ms (Msg (KeyMsg k) t)) = (Inr result, tr) \<and>
           selected result = -1 \<and>
           selectPR b (foldr Msg ms (Msg (KeyMsg k) t)) prIDs = (Inl (OsExit 0), tr)"
proof -
  let ?v = "new_prSelector b prIDs" and ?t = "foldr Msg ms (Msg (KeyMsg k) t)"
  from tea_loop_quit [OF assms(2,3), of ?v t] obtain result tr
    where loop: "tea_loop ?v ?t = (Inr result, tr)" and "selected result = selected ?v"
    by blast
  then have sel: "selected result = -1"
    by (simp add: new_prSelector_def)
  obtain m t' where "?t = Msg m t'"
    by (cases ms) auto
  with loop have run: "tea_Run ?v ?t = (Inr result, NewProgram ?v # Render (View ?v) # tr)"
    by (simp add: tea_Run_def)
  with sel selectPR_aborted [OF assms(1) run sel] show ?thesis
    by blast
qed

theorem selectPR_abort_exits_0_witness:
  "fst (selectPR \<lparr>b_projectKey = ''P'', b_repoName = ''r''\<rparr>
      (foldr Msg [KeyMsg ''j'', OtherMsg] (Msg (KeyMsg ''esc'') (Fails ''closed''))) [''9'', ''10''])
     = Inl (OsExit 0)"
  using selectPR_abort_exits_0 [of "[''9'', ''10'']" "[KeyMsg ''j'', OtherMsg]" "''esc''"
      "\<lparr>b_projectKey = ''P'', b_repoName = ''r''\<rparr>" "Fails ''closed''"]
  by auto

section \<open>Properties of the matcher\<close>

lemma candidates_sorted_mset:
  assumes "candidates refToHash ref = Inr prIDs"
  shows "sorted_wrt (\<lambda>x y. \<not> string_less x y) prIDs \<and>
         (\<exists>targetHash. map_of refToHash ref = Some targetHash \<and>
            mset prIDs = mset (collect_prIDs refToHash targetHash))"
  using assms
  by (auto simp: candidates_def Let_def sort_Reverse_sorted sort_Reverse_mset
      split: option.splits if_splits)

text \<open>
  Claim C6: the list of candidates that \<^verbatim>\<open>findPullRequestIDFromRemote\<close> hands to
  \<^verbatim>\<open>selectPR\<close> is in descending order of Go's order of strings, the lexicographic order
  of bytes (no element is below a later one), and holds exactly the identifiers
  collected from the table. The identifiers are never read as numbers.
\<close>

theorem candidates_sorted_descending:
  assumes "LsRemote ls_remote = Inr refToHash" and "candidates refToHash ref = Inr prIDs"
  shows "findPullRequestIDFromRemote b ls_remote t ref = selectPR b t prIDs \<and>
         sorted_wrt (\<lambda>x y. \<not> string_less x y) prIDs \<and>
         (\<exists>targetHash. map_of refToHash ref = Some targetHash \<and>
            mset prIDs = mset (collect_prIDs refToHash targetHash))"
  using assms candidates_sorted_mset [OF assms(2)]
  by (simp add: findPullRequestIDFromRemote_def)

lemma LsRemote_9_10_100:
  "LsRemote (Inr listing_9_10_100) =
     Inr [(''refs/heads/feature'', ''abc123''), (''refs/pull/9/head'', ''abc123''),
          (''refs/pull/100/head'', ''abc123''), (''refs/pull/7/head'', ''fff000''),
          (''refs/pull/10/head'', ''abc123'')]"
  by (simp add: LsRemote_def listing_9_10_100_def toRefToHash_def remotes_def TrimSuffix_def
      HasSuffix_def toRefToHash_line_def index_def)

lemma candidates_9_10_100:
  "candidates [(''refs/heads/feature'', ''abc123''), (''refs/pull/9/head'', ''abc123''),
          (''refs/pull/100/head'', ''abc123''), (''refs/pull/7/head'', ''fff000''),
          (''refs/pull/10/head'', ''abc123'')] ''refs/heads/feature'' = Inr [''9'', ''100'', ''10'']"
  by (simp add: candidates_def collect_prIDs_def isPRRef_def extractPRID_def HasPrefix_def
      HasSuffix_def TrimPrefix_def TrimSuffix_def refPullRequestPrefix_def refPrefix_def
      refPullRequestSuffix_def sort_Reverse_def)

theorem candidates_sorted_descending_witness:
  "findPullRequestIDFromRemote \<lparr>b_projectKey = ''P'', b_repoName = ''r''\<rparr>
     (Inr listing_9_10_100) (Fails ''closed'') ''refs/heads/feature'' =
   selectPR \<lparr>b_projectKey = ''P'', b_repoName = ''r''\<rparr> (Fails ''closed'') [''9'', ''100'', ''10''] \<and>
   sorted_wrt (\<lambda>x y. \<not> string_less x y) [''9'', ''100'', ''10'']"
  using candidates_sorted_descending [OF LsRemote_9_10_100 candidates_9_10_100]
  by simp

text \<open>\<^verbatim>\<open>selectPR\<close> makes no error of its own, so both not-found errors come from the matcher.\<close>

lemma selectPR_no_ErrorNew: "fst (selectPR b t prIDs) \<noteq> Inl (ErrorNew m)"
  by (auto simp: selectPR_def index_def Let_def split: prod.splits sum.splits)

lemma collect_prIDs_empty_iff:
  assumes "distinct (map fst table)"
  shows "collect_prIDs table h = [] \<longleftrightarrow> (\<forall>r. isPRRef r \<longrightarrow> map_of table r \<noteq> Some h)"
  using assms by (auto simp: collect_prIDs_def filter_empty_conv)

lemma findPullRequestIDFromRemote_not_found:
  assumes "toRefToHash out = Inr table"
  shows "(fst (findPullRequestIDFromRemote b (Inr out) t ref) =
            Inl (ErrorNew ''not found a current branch in remote'')
          \<longleftrightarrow> map_of table ref = None) \<and>
         (fst (findPullRequestIDFromRemote b (Inr out) t ref) =
            Inl (ErrorNew ''not found a pull request related to current branch'')
          \<longleftrightarrow> (\<exists>h. map_of table ref = Some h \<and> (\<forall>r. isPRRef r \<longrightarrow> map_of table r \<noteq> Some h)))"
proof -
  have d: "distinct (map fst table)"
    using assms by (rule toRefToHash_distinct)
  show ?thesis
  proof (cases "map_of table ref")
    case None
    then show ?thesis
      using assms by (simp add: findPullRequestIDFromRemote_def LsRemote_def candidates_def)
  next
    case (Some h)
    show ?thesis
    proof (cases "collect_prIDs table h = []")
      case True
      with Some assms collect_prIDs_empty_iff [OF d, of h] show ?thesis
        by (simp add: findPullRequestIDFromRemote_def LsRemote_def candidates_def)
    next
      case False
      with Some assms collect_prIDs_empty_iff [OF d, of h] show ?thesis
        by (simp add: findPullRequestIDFromRemote_def LsRemote_def candidates_def
            selectPR_no_ErrorNew)
    qed
  qed
qed

lemma isPRRef_iff:
  "isPRRef r \<longleftrightarrow> (\<exists>id. r = ''refs/pull/'' @ id @ ''/head'') \<or> r = ''refs/pull/head''"
proof
  assume "isPRRef r"
  then have pre: "take 10 r = ''refs/pull/''" and len: "10 \<le> length r"
    and suf: "drop (length r - 5) r = ''/head''"
    by (simp_all add: isPRRef_def HasPrefix_def HasSuffix_def refPullRequestPrefix_def
        refPrefix_def refPullRequestSuffix_def eval_nat_numeral)
  define r' where "r' = drop 10 r"
  have r: "r = ''refs/pull/'' @ r'"
    using pre append_take_drop_id [of 10 r] by (simp add: r'_def)
  show "(\<exists>id. r = ''refs/pull/'' @ id @ ''/head'') \<or> r = ''refs/pull/head''"
  proof (cases "5 \<le> length r'")
    case True
    have "drop (length r - 5) r = drop (length r' - 5) r'"
      using True len by (simp add: r'_def)
    with suf have "drop (length r' - 5) r' = ''/head''"
      by simp
    then have "r' = take (length r' - 5) r' @ ''/head''"
      using append_take_drop_id [of "length r' - 5" r'] by simp
    with r show ?thesis by auto
  next
    case False
    then consider "length r' = 0" | "length r' = 1" | "length r' = 2" | "length r' = 3"
      | "length r' = 4" by linarith
    then show ?thesis
    proof cases
      case 1
      then show ?thesis using suf by (simp add: r)
    next
      case 2
      then obtain a where "r' = [a]" by (auto simp: length_Suc_conv)
      then show ?thesis using suf by (simp add: r)
    next
      case 3
      then obtain a b where "r' = [a, b]" by (auto simp: length_Suc_conv numeral_2_eq_2)
      then show ?thesis using suf by (simp add: r)
    next
      case 4
      then obtain a b c where "r' = [a, b, c]" by (auto simp: length_Suc_conv numeral_3_eq_3)
      then show ?thesis using suf by (simp add: r)
    next
      case 5
      then obtain a b c d where "r' = [a, b, c, d]"
        by (auto simp: length_Suc_conv eval_nat_numeral)
      then show ?thesis using suf by (simp add: r)
    qed
  qed
next
  assume "(\<exists>id. r = ''refs/pull/'' @ id @ ''/head'') \<or> r = ''refs/pull/head''"
  then show "isPRRef r"
    by (auto simp: isPRRef_def HasPrefix_def HasSuffix_def refPullRequestPrefix_def
        refPrefix_def refPullRequestSuffix_def)
qed

text \<open>
  Claim C4 says that, for a listing that parses, the second not-found error is returned
  exactly when no reference of the form \<^verbatim>\<open>refs/pull/<id>/head\<close> has the hash of the
  target. \<open>findPullRequestIDFromRemote_not_found\<close> shows this for the references that
  \<^verbatim>\<open>isPRRef\<close> accepts, and \<open>isPRRef_iff\<close> that these are the references of that form and
  one more, \<^verbatim>\<open>refs/pull/head\<close>, in which the prefix and the suffix share a slash. For the
  listing below, the target is in the table and no reference of the form has its hash,
  and still the function returns a pull request, \<^verbatim>\<open>head\<close>, where the claim has the
  not-found error.
\<close>

theorem findPullRequestIDFromRemote_pull_head:
  "toRefToHash listing_pull_head =
     Inr [(''refs/heads/feature'', ''abc123''), (''refs/pull/head'', ''abc123'')] \<and>
   (\<nexists>id. ''refs/pull/'' @ id @ ''/head'' \<in> {''refs/heads/feature'', ''refs/pull/head''}) \<and>
   findPullRequestIDFromRemote b (Inr listing_pull_head) t ''refs/heads/feature'' = (Inr ''head'', [])"
  by (simp add: listing_pull_head_def findPullRequestIDFromRemote_def LsRemote_def toRefToHash_def
      remotes_def toRefToHash_line_def index_def candidates_def collect_prIDs_def isPRRef_def
      extractPRID_def HasPrefix_def HasSuffix_def TrimPrefix_def TrimSuffix_def
      refPullRequestPrefix_def refPrefix_def refPullRequestSuffix_def sort_Reverse_def selectPR_def)

section \<open>Properties of the merge-commit matcher\<close>

lemma run_then_stop:
  "list_all P xs \<Longrightarrow> \<not> P y \<Longrightarrow>
   takeWhile P (xs @ y # ys) = xs \<and> dropWhile P (xs @ y # ys) = y # ys"
  by (induction xs) auto

lemma literal_append: "literal lit (lit @ s) = Some s"
  by (simp add: literal_def HasPrefix_def)

lemma literal_Some: "literal lit s = Some r \<Longrightarrow> s = lit @ r"
proof -
  assume "literal lit s = Some r"
  then have "take (length lit) s = lit" "r = drop (length lit) s"
    by (auto simp: literal_def HasPrefix_def split: if_splits)
  then show ?thesis
    by (metis append_take_drop_id)
qed

lemma list_all_takeWhile: "list_all P (takeWhile P xs)"
  by (induction xs) auto

text \<open>The matcher accepts exactly the texts that start with a text of the pattern.\<close>

lemma FindStringSubmatch_iff:
  "FindStringSubmatch out = [whole, d] \<longleftrightarrow>
     (\<exists>h a b rest.
        out = whole @ rest \<and> (rest = [] \<or> \<not> is_nonspace (hd rest)) \<and>
        whole = h @ '' Merge pull request #'' @ d @ '' '' @ a @ '' into '' @ b \<and>
        h \<noteq> [] \<and> list_all is_hex h \<and> d \<noteq> [] \<and> list_all is_digit d \<and>
        a \<noteq> [] \<and> list_all is_nonspace a \<and> b \<noteq> [] \<and> list_all is_nonspace b)"
  (is "?lhs \<longleftrightarrow> ?rhs")
proof
  assume ?lhs
  define h where "h = takeWhile is_hex out"
  from \<open>?lhs\<close> obtain r2 where r2: "literal '' Merge pull request #'' (dropWhile is_hex out) = Some r2"
    and h: "h \<noteq> []"
    by (auto simp: FindStringSubmatch_def Let_def h_def split: if_splits option.splits)
  define d' where "d' = takeWhile is_digit r2"
  from \<open>?lhs\<close> r2 h obtain r4 where r4: "literal '' '' (dropWhile is_digit r2) = Some r4"
    and d': "d' \<noteq> []"
    by (auto simp: FindStringSubmatch_def Let_def h_def d'_def split: if_splits option.splits)
  define a where "a = takeWhile is_nonspace r4"
  from \<open>?lhs\<close> r2 h r4 d' obtain r6 where r6: "literal '' into '' (dropWhile is_nonspace r4) = Some r6"
    and a: "a \<noteq> []"
    by (auto simp: FindStringSubmatch_def Let_def h_def d'_def a_def split: if_splits option.splits)
  define b where "b = takeWhile is_nonspace r6"
  from \<open>?lhs\<close> r2 h r4 d' r6 a have b: "b \<noteq> []"
    and res: "whole = h @ '' Merge pull request #'' @ d' @ '' '' @ a @ '' into '' @ b" "d = d'"
    by (auto simp: FindStringSubmatch_def Let_def h_def d'_def a_def b_def split: if_splits)
  have "out = h @ dropWhile is_hex out"
    by (simp add: h_def)
  also have "dropWhile is_hex out = '' Merge pull request #'' @ r2"
    using r2 by (rule literal_Some)
  also have "r2 = d' @ dropWhile is_digit r2"
    by (simp add: d'_def)
  also have "dropWhile is_digit r2 = '' '' @ r4"
    using r4 by (rule literal_Some)
  also have "r4 = a @ dropWhile is_nonspace r4"
    by (simp add: a_def)
  also have "dropWhile is_nonspace r4 = '' into '' @ r6"
    using r6 by (rule literal_Some)
  also have "r6 = b @ dropWhile is_nonspace r6"
    by (simp add: b_def)
  finally have out: "out = whole @ dropWhile is_nonspace r6"
    by (simp add: res)
  have stop: "dropWhile is_nonspace r6 = [] \<or> \<not> is_nonspace (hd (dropWhile is_nonspace r6))"
    using hd_dropWhile [of is_nonspace r6] by blast
  have "list_all is_hex h" "list_all is_digit d'" "list_all is_nonspace a" "list_all is_nonspace b"
    by (simp_all add: h_def d'_def a_def b_def list_all_takeWhile)
  with out stop res h d' a b show ?rhs
    by blast
next
  assume ?rhs
  then obtain h a b rest where out: "out = whole @ rest"
    and rest: "rest = [] \<or> \<not> is_nonspace (hd rest)"
    and whole: "whole = h @ '' Merge pull request #'' @ d @ '' '' @ a @ '' into '' @ b"
    and ne: "h \<noteq> []" "d \<noteq> []" "a \<noteq> []" "b \<noteq> []"
    and cls: "list_all is_hex h" "list_all is_digit d" "list_all is_nonspace a" "list_all is_nonspace b"
    by blast
  have sp: "\<not> is_hex SPACE" "\<not> is_digit SPACE" "\<not> is_nonspace SPACE"
    by (simp_all add: is_hex_def is_digit_def is_nonspace_def)
  define L1 where "L1 = '' Merge pull request #''"
  define L2 where "L2 = '' ''"
  define L3 where "L3 = '' into ''"
  have F: "FindStringSubmatch out =
      (let h = takeWhile is_hex out in
       if h = [] then []
       else case literal L1 (dropWhile is_hex out) of
         None \<Rightarrow> []
       | Some r2 \<Rightarrow>
           (let d = takeWhile is_digit r2 in
            if d = [] then []
            else case literal L2 (dropWhile is_digit r2) of
              None \<Rightarrow> []
            | Some r4 \<Rightarrow>
                (let a = takeWhile is_nonspace r4 in
                 if a = [] then []
                 else case literal L3 (dropWhile is_nonspace r4) of
                   None \<Rightarrow> []
                 | Some r6 \<Rightarrow>
                     (let b = takeWhile is_nonspace r6 in
                      if b = [] then [] else [h @ L1 @ d @ L2 @ a @ L3 @ b, d]))))"
    unfolding FindStringSubmatch_def L1_def L2_def L3_def by (rule refl)
  have t1: "takeWhile is_hex (h @ L1 @ x) = h" "dropWhile is_hex (h @ L1 @ x) = L1 @ x" for x
    using run_then_stop [OF cls(1) sp(1)] by (simp_all add: L1_def)
  have t2: "takeWhile is_digit (d @ L2 @ x) = d" "dropWhile is_digit (d @ L2 @ x) = L2 @ x" for x
    using run_then_stop [OF cls(2) sp(2)] by (simp_all add: L2_def)
  have t3: "takeWhile is_nonspace (a @ L3 @ x) = a" "dropWhile is_nonspace (a @ L3 @ x) = L3 @ x"
    for x
    using run_then_stop [OF cls(3) sp(3)] by (simp_all add: L3_def)
  have t4: "takeWhile is_nonspace (b @ rest) = b"
  proof (cases rest)
    case Nil
    with cls(4) show ?thesis
      by (simp add: takeWhile_eq_all_conv list_all_iff)
  next
    case (Cons y ys)
    with rest run_then_stop [OF cls(4), of y ys] show ?thesis
      by simp
  qed
  have out': "out = h @ L1 @ d @ L2 @ a @ L3 @ b @ rest"
    by (simp add: out whole L1_def L2_def L3_def)
  have "FindStringSubmatch out = [h @ L1 @ d @ L2 @ a @ L3 @ b, d]"
    unfolding F by (simp add: out' Let_def t1 t2 t3 t4 literal_append ne)
  then show ?lhs
    by (simp add: whole L1_def L2_def L3_def)
qed

lemma FindStringSubmatch_Nil_or_pair:
  "FindStringSubmatch out = [] \<or> (\<exists>whole d. FindStringSubmatch out = [whole, d])"
  by (simp add: FindStringSubmatch_def Let_def split: option.splits)

section \<open>Properties of lookup and BlamePR\<close>

lemma commit_src: "SPACE \<in> set text \<Longrightarrow> text = commit_of text @ [SPACE] @ src_of text"
proof -
  assume "SPACE \<in> set text"
  then have "dropWhile (\<lambda>c. c \<noteq> SPACE) text \<noteq> []"
    by (simp add: dropWhile_eq_Nil_conv)
  then obtain d ds where d: "dropWhile (\<lambda>c. c \<noteq> SPACE) text = d # ds"
    by (cases "dropWhile (\<lambda>c. c \<noteq> SPACE) text") auto
  then have "d = SPACE"
    using hd_dropWhile [of "\<lambda>c. c \<noteq> SPACE" "text"] by auto
  with d takeWhile_dropWhile_id [of "\<lambda>c. c \<noteq> SPACE" "text"] show ?thesis
    by (simp add: commit_of_def src_of_def)
qed

lemma length_FindStringSubmatch:
  "FindStringSubmatch out = [] \<or> length (FindStringSubmatch out) = 2"
  by (simp add: FindStringSubmatch_def Let_def split: option.splits)

lemma lookup_no_panic: "lookup git_show asked commit \<noteq> Inl IndexOutOfRange"
  using length_FindStringSubmatch [of "case git_show asked commit of Inr out \<Rightarrow> out"]
  by (auto simp: lookup_def index_def Let_def split: sum.splits option.splits)

lemma lookup_ExecError:
  "lookup git_show asked commit = Inl e \<longleftrightarrow> (\<exists>x. git_show asked commit = Inl x \<and> e = ExecError x)"
  using length_FindStringSubmatch [of "case git_show asked commit of Inr out \<Rightarrow> out"]
  by (auto simp: lookup_def index_def Let_def split: sum.splits option.splits)

lemma lookup_no_match:
  "git_show asked commit = Inr out \<Longrightarrow> FindStringSubmatch out = [] \<Longrightarrow>
   lookup git_show asked commit = Inr commit"
  by (simp add: lookup_def)

lemma BlamePR_line_eq:
  "BlamePR_line git_show st text =
     (if SPACE \<notin> set text then (st, Some IndexOutOfRange)
      else case cached st (commit_of text) of
        Some pr \<Rightarrow> (st\<lparr>printed := printed st @ [printf_of text pr]\<rparr>, None)
      | None \<Rightarrow>
          (case lookup git_show (calls st) (commit_of text) of
             Inl e \<Rightarrow> (st\<lparr>calls := calls st @ [commit_of text]\<rparr>, Some e)
           | Inr pr \<Rightarrow>
               (st\<lparr>cached := (cached st)(commit_of text \<mapsto> pr),
                   calls := calls st @ [commit_of text],
                   printed := printed st @ [printf_of text pr]\<rparr>, None)))"
  by (auto simp: BlamePR_line_def SplitN2_def index_def Let_def cached_at_def commit_of_def
      src_of_def printf_of_def max_def split: sum.splits option.splits)


lemma blame_inv_empty: "blame_inv [] empty_state"
  by (simp add: blame_inv_def empty_state_def)

lemma blame_inv_post_None: "blame_inv seen st \<Longrightarrow> blame_post seen st None"
  by (simp add: blame_inv_def blame_post_def)

lemma blame_inv_post_stop:
  "blame_inv seen st \<Longrightarrow> blame_post (seen @ rest) st (Some e)"
  by (auto simp: blame_inv_def blame_post_def nth_append)

lemma count_list_distinct:
  "distinct xs \<Longrightarrow> count_list xs x = (if x \<in> set xs then 1 else 0)"
  by (induction xs) auto

lemma blame_inv_post_failed_lookup:
  assumes "blame_inv seen st" and "cached st (commit_of x) = None"
  shows "blame_post (seen @ x # rest) (st\<lparr>calls := calls st @ [commit_of x]\<rparr>) (Some e)"
  using assms by (auto simp: blame_inv_def blame_post_def nth_append)

lemma blame_inv_cached:
  assumes "blame_inv seen st" and "cached st (commit_of x) = Some pr"
  shows "blame_inv (seen @ [x]) (st\<lparr>printed := printed st @ [printf_of x pr]\<rparr>)"
proof -
  from assms have "commit_of x \<in> commit_of ` set seen"
    by (auto simp: blame_inv_def)
  with assms show ?thesis
    by (auto simp: blame_inv_def nth_append printf_of_def)
qed

lemma blame_inv_looked_up:
  assumes "blame_inv seen st" and "cached st (commit_of x) = None"
  shows "blame_inv (seen @ [x])
           (st\<lparr>cached := (cached st)(commit_of x \<mapsto> pr), calls := calls st @ [commit_of x],
               printed := printed st @ [printf_of x pr]\<rparr>)"
proof -
  from assms have new: "commit_of x \<notin> set (calls st)"
    by (auto simp: blame_inv_def)
  have old: "commit_of (seen ! i) \<noteq> commit_of x" if "i < length seen" for i
  proof -
    from that assms(1) have "commit_of (seen ! i) \<in> dom (cached st)"
      by (auto simp: blame_inv_def)
    with assms(2) show ?thesis by auto
  qed
  from assms(1) new old show ?thesis
    by (auto simp: blame_inv_def nth_append printf_of_def)
qed

lemma BlamePR_loop_post:
  "blame_inv seen st \<Longrightarrow> BlamePR_loop git_show st rest = (st', r) \<Longrightarrow>
   blame_post (seen @ rest) st' r"
proof (induction rest arbitrary: seen st)
  case Nil
  then show ?case by (simp add: blame_inv_post_None)
next
  case (Cons x rest)
  show ?case
  proof (cases "SPACE \<in> set x")
    case False
    with Cons.prems(2) have "st' = st" "r = Some IndexOutOfRange"
      by (simp_all add: BlamePR_line_eq)
    with blame_inv_post_stop [OF Cons.prems(1)] show ?thesis
      by simp
  next
    case True
    show ?thesis
    proof (cases "cached st (commit_of x)")
      case (Some pr)
      with True Cons.prems(2)
      have "BlamePR_loop git_show (st\<lparr>printed := printed st @ [printf_of x pr]\<rparr>) rest = (st', r)"
        by (simp add: BlamePR_line_eq)
      from Cons.IH [OF blame_inv_cached [OF Cons.prems(1) Some] this] show ?thesis
        by simp
    next
      case None
      show ?thesis
      proof (cases "lookup git_show (calls st) (commit_of x)")
        case (Inl e)
        with True None Cons.prems(2)
        have "st' = st\<lparr>calls := calls st @ [commit_of x]\<rparr>" "r = Some e"
          by (simp_all add: BlamePR_line_eq)
        with blame_inv_post_failed_lookup [OF Cons.prems(1) None] show ?thesis
          by simp
      next
        case (Inr pr)
        with True None Cons.prems(2)
        have "BlamePR_loop git_show
                (st\<lparr>cached := (cached st)(commit_of x \<mapsto> pr), calls := calls st @ [commit_of x],
                    printed := printed st @ [printf_of x pr]\<rparr>) rest = (st', r)"
          by (simp add: BlamePR_line_eq)
        from Cons.IH [OF blame_inv_looked_up [OF Cons.prems(1) None] this] show ?thesis
          by simp
      qed
    qed
  qed
qed

text \<open>
  Claim C1: in one run of \<^verbatim>\<open>BlamePR\<close> over the lines \<open>texts\<close>, \<^verbatim>\<open>lookup\<close> is called at most once
  for each commit, and only for commits of the lines, however many lines carry the
  commit and whatever \<^verbatim>\<open>git show\<close> answers from call to call; any two lines printed for
  the same commit carry the same label. When the run ends without a failure, every
  line is printed and \<^verbatim>\<open>lookup\<close> was called exactly once for each commit of the lines.
\<close>

theorem lookup_at_most_once:
  assumes "git_blame ([''blame'', ''--first-parent''] @ argv) = Inr texts"
    and "BlamePR git_blame git_show argv = (st, r)"
  shows "(\<forall>commit. count_list (calls st) commit \<le> 1) \<and>
         set (calls st) \<subseteq> commit_of ` set texts \<and>
         length (printed st) \<le> length texts \<and>
         (\<forall>i<length (printed st). \<forall>j<length (printed st).
            commit_of (texts ! i) = commit_of (texts ! j) \<longrightarrow>
            label (printed st ! i) = label (printed st ! j)) \<and>
         (r = None \<longrightarrow> length (printed st) = length texts \<and>
            (\<forall>commit \<in> commit_of ` set texts. count_list (calls st) commit = 1))"
proof -
  from assms have "BlamePR_loop git_show empty_state texts = (st, r)"
    by (simp add: BlamePR_def)
  from BlamePR_loop_post [OF blame_inv_empty this]
  have post: "blame_post texts st r" by simp
  then have d: "distinct (calls st)"
    by (simp add: blame_post_def)
  have once: "count_list (calls st) commit \<le> 1" for commit
    using d by (simp add: count_list_distinct)
  have same: "label (printed st ! i) = label (printed st ! j)"
    if "i < length (printed st)" "j < length (printed st)"
      "commit_of (texts ! i) = commit_of (texts ! j)" for i j
  proof -
    from post that(1,2)
    have "cached st (commit_of (texts ! i)) = Some (label (printed st ! i))"
      "cached st (commit_of (texts ! j)) = Some (label (printed st ! j))"
      by (simp_all add: blame_post_def)
    with that(3) show ?thesis by simp
  qed
  have exactly: "count_list (calls st) commit = 1"
    if "r = None" "commit \<in> commit_of ` set texts" for commit
  proof -
    from post that have "commit \<in> set (calls st)"
      by (simp add: blame_post_def)
    with d show ?thesis
      by (simp add: count_list_distinct)
  qed
  have a: "\<forall>commit. count_list (calls st) commit \<le> 1"
    using once by blast
  have b: "set (calls st) \<subseteq> commit_of ` set texts" "length (printed st) \<le> length texts"
    using post by (simp_all add: blame_post_def)
  have c: "\<forall>i<length (printed st). \<forall>j<length (printed st).
            commit_of (texts ! i) = commit_of (texts ! j) \<longrightarrow>
            label (printed st ! i) = label (printed st ! j)"
    using same by blast
  have e: "r = None \<longrightarrow> length (printed st) = length texts \<and>
            (\<forall>commit \<in> commit_of ` set texts. count_list (calls st) commit = 1)"
    using post exactly unfolding blame_post_def by blast
  from a b c e show ?thesis
    by blast
qed


lemmas eval_defs =
  BlamePR_def BlamePR_line_eq commit_of_def src_of_def printf_of_def empty_state_def
  example_git_show_def example_git_blame_def lookup_def FindStringSubmatch_def literal_def
  HasPrefix_def is_hex_def is_digit_def is_nonspace_def index_def Atoi_def decimal_def
  Itoa_def digits.simps

lemma example_run:
  "calls (fst (BlamePR example_git_blame example_git_show [''f.go''])) = [''deadbeef'', ''abc'']"
  "map label (printed (fst (BlamePR example_git_blame example_git_show [''f.go'']))) =
     [''deadbeef'', ''PR #42'', ''deadbeef'', ''PR #42'']"
  "map src (printed (fst (BlamePR example_git_blame example_git_show [''f.go'']))) =
     [''line one'', ''x  y'', ''line two'', ''z'']"
  "map padding (printed (fst (BlamePR example_git_blame example_git_show [''f.go'']))) =
     [8, 6, 8, 6]"
  "snd (BlamePR example_git_blame example_git_show [''f.go'']) = None"
  by (simp_all add: eval_defs)

theorem lookup_at_most_once_witness:
  "calls (fst (BlamePR example_git_blame example_git_show [''f.go''])) = [''deadbeef'', ''abc''] \<and>
   map label (printed (fst (BlamePR example_git_blame example_git_show [''f.go'']))) =
     [''deadbeef'', ''PR #42'', ''deadbeef'', ''PR #42''] \<and>
   count_list (calls (fst (BlamePR example_git_blame example_git_show [''f.go'']))) ''deadbeef'' = 1"
proof -
  have a: "example_git_blame ([''blame'', ''--first-parent''] @ [''f.go'']) =
             Inr [''deadbeef line one'', ''abc x  y'', ''deadbeef line two'', ''abc z'']"
    by (simp add: example_git_blame_def)
  have b: "BlamePR example_git_blame example_git_show [''f.go''] =
             (fst (BlamePR example_git_blame example_git_show [''f.go'']), None)"
    using example_run(5) by (simp add: prod_eq_iff)
  from lookup_at_most_once [OF a b] example_run show ?thesis
    by (simp add: commit_of_def)
qed

text \<open>
  Claim C10: \<^verbatim>\<open>BlamePR\<close> cuts a line at its first space only. For a line that holds a
  space, the commit is the text before the first space and the second argument of
  \<^verbatim>\<open>fmt.Printf\<close> is all the text after it, further spaces included, and the line does not
  panic. For a line that holds no space (the empty line is one) the read of the second
  part is out of range: the line, the loop and \<^verbatim>\<open>BlamePR\<close> as a whole end in that panic,
  and nothing is printed for the line.
\<close>

theorem BlamePR_line_split:
  "(SPACE \<in> set text \<longrightarrow>
      text = commit_of text @ [SPACE] @ src_of text \<and> SPACE \<notin> set (commit_of text) \<and>
      snd (BlamePR_line git_show st text) \<noteq> Some IndexOutOfRange \<and>
      (snd (BlamePR_line git_show st text) = None \<longrightarrow>
         (\<exists>pr. printed (fst (BlamePR_line git_show st text)) =
            printed st @ [\<lparr>padding = max (length (commit_of text)) (length pr), label = pr,
                            src = src_of text\<rparr>]))) \<and>
   (SPACE \<notin> set text \<longrightarrow>
      BlamePR_line git_show st text = (st, Some IndexOutOfRange) \<and>
      BlamePR_loop git_show st (text # texts) = (st, Some IndexOutOfRange) \<and>
      (git_blame ([''blame'', ''--first-parent''] @ argv) = Inr (text # texts) \<longrightarrow>
         BlamePR git_blame git_show argv = (empty_state, Some IndexOutOfRange)))"
proof -
  have no_space: "SPACE \<notin> set (commit_of text)"
    using set_takeWhileD [of SPACE "\<lambda>c. c \<noteq> SPACE" "text"] by (auto simp: commit_of_def)
  have "snd (BlamePR_line git_show st text) \<noteq> Some IndexOutOfRange" if "SPACE \<in> set text"
    using that lookup_no_panic [of git_show "calls st" "commit_of text"]
    by (auto simp: BlamePR_line_eq split: option.splits sum.splits)
  moreover have "\<exists>pr. printed (fst (BlamePR_line git_show st text)) =
            printed st @ [\<lparr>padding = max (length (commit_of text)) (length pr), label = pr,
                            src = src_of text\<rparr>]"
    if "SPACE \<in> set text" "snd (BlamePR_line git_show st text) = None"
    using that by (auto simp: BlamePR_line_eq printf_of_def split: option.splits sum.splits)
  ultimately show ?thesis
    using commit_src [of "text"] no_space by (simp add: BlamePR_line_eq BlamePR_def)
qed

theorem BlamePR_line_split_witness:
  "src_of ''deadbeef line  one two'' = ''line  one two'' \<and>
   map src (printed (fst (BlamePR_line example_git_show empty_state ''deadbeef line  one two''))) =
     [''line  one two''] \<and>
   BlamePR_loop example_git_show empty_state [[], ''deadbeef line one''] =
     (empty_state, Some IndexOutOfRange) \<and>
   BlamePR_loop example_git_show empty_state [''deadbeef'', ''deadbeef line one''] =
     (empty_state, Some IndexOutOfRange)"
  using BlamePR_line_split [of "''deadbeef line  one two''" example_git_show empty_state]
    BlamePR_line_split [of "[]" example_git_show empty_state "[''deadbeef line one'']"]
    BlamePR_line_split [of "''deadbeef''" example_git_show empty_state "[''deadbeef line one'']"]
  by (simp add: eval_defs)

text \<open>
  Claim C8: for a line that holds a space and whose commit is not yet in the cache, when
  \<^verbatim>\<open>git show\<close> succeeds and its output does not match the merge-commit pattern, the
  commit is cached and printed under its own hash and the loop goes on with the lines
  that follow; when \<^verbatim>\<open>git show\<close> itself fails with \<open>e\<close>, the loop stops there and
  \<^verbatim>\<open>BlamePR\<close> returns \<open>e\<close>, with nothing printed for the line or after it.
\<close>

theorem lookup_failure_asymmetry:
  assumes "SPACE \<in> set text" and "cached st (commit_of text) = None"
  shows "(git_show (calls st) (commit_of text) = Inr out \<and> FindStringSubmatch out = [] \<longrightarrow>
            BlamePR_loop git_show st (text # texts) =
              BlamePR_loop git_show
                (st\<lparr>cached := (cached st)(commit_of text \<mapsto> commit_of text),
                    calls := calls st @ [commit_of text],
                    printed := printed st @
                      [\<lparr>padding = length (commit_of text), label = commit_of text,
                        src = src_of text\<rparr>]\<rparr>) texts) \<and>
         (git_show (calls st) (commit_of text) = Inl e \<longrightarrow>
            BlamePR_loop git_show st (text # texts) =
              (st\<lparr>calls := calls st @ [commit_of text]\<rparr>, Some (ExecError e)))"
  using assms by (auto simp: BlamePR_line_eq lookup_def printf_of_def)

theorem lookup_failure_asymmetry_witness:
  "BlamePR_loop example_git_show empty_state [''deadbeef line one'', ''deadbeef line two''] =
     (\<lparr>cached = [''deadbeef'' \<mapsto> ''deadbeef''], calls = [''deadbeef''],
       printed = [\<lparr>padding = 8, label = ''deadbeef'', src = ''line one''\<rparr>,
                  \<lparr>padding = 8, label = ''deadbeef'', src = ''line two''\<rparr>]\<rparr>, None) \<and>
   BlamePR_loop example_git_show empty_state [''bad line one'', ''deadbeef line two''] =
     (\<lparr>cached = Map.empty, calls = [''bad''], printed = []\<rparr>, Some (ExecError ''exit status 128''))"
proof -
  have a: "SPACE \<in> set ''deadbeef line one''" "SPACE \<in> set ''bad line one''"
    by simp_all
  have b: "cached empty_state (commit_of ''deadbeef line one'') = None"
    "cached empty_state (commit_of ''bad line one'') = None"
    by (simp_all add: empty_state_def)
  from lookup_failure_asymmetry [OF a(1) b(1), of example_git_show "''deadbeef fix typo''"
      "[''deadbeef line two'']"]
    lookup_failure_asymmetry [OF a(2) b(2), of example_git_show _ "[''deadbeef line two'']"
      "''exit status 128''"]
  show ?thesis
    by (simp add: eval_defs)
qed

end
